theory Spec2Isabelle
  imports Complex_Main "HOL-Library.AList"
begin

section \<open>Data model\<close>

text \<open>
  The program is the class \<open>EnergySystemCalculator\<close> of \<open>app.py\<close>. A pandas Series is an
  ordered list of (index label, value) pairs; the consumption profile is the column
  \<open>consumption_kWh\<close> of the data frame, indexed by \<open>timestamp\<close>. Python floats are read
  as real numbers: rounding, overflow and underflow of IEEE doubles are outside the model,
  and so is the OverflowError of a power that leaves the range of a double.
  The only non-finite values the code can make from finite inputs come from the final
  division, so its result has a type of its own.
\<close>

type_synonym 't series = "('t \<times> real) list"

datatype error = ValueError | KeyError | ZeroDivisionError

datatype quotient = Finite real | PosInf | NegInf | NaN

text \<open>
  The state of numpy's global random generator: the seed it was last seeded with and the
  number of draws made since. It is the only state outside the arguments that the class
  touches.
\<close>

datatype rng = Rng nat nat

definition np_random_seed :: "nat \<Rightarrow> rng \<Rightarrow> rng" where
  "np_random_seed s r = Rng s 0"

section \<open>The numpy and pandas operations used\<close>

text \<open>\<open>np.linspace(start, stop, num)\<close> with the end point included.\<close>

definition linspace :: "real \<Rightarrow> real \<Rightarrow> nat \<Rightarrow> real list" where
  "linspace start stop num =
     map (\<lambda>k. start + real k * ((stop - start) / real (num - 1))) [0..<num]"

definition clip :: "real \<Rightarrow> real \<Rightarrow> real \<Rightarrow> real" where
  "clip x lo hi = min (max x lo) hi"

text \<open>\<open>np.tile\<close> of a one-dimensional array: \<open>reps\<close> copies, one after the other.\<close>

definition tile :: "'a list \<Rightarrow> nat \<Rightarrow> 'a list" where
  "tile xs reps = concat (replicate reps xs)"

text \<open>
  \<open>pd.Series(values, index=index)\<close> on an array of values: pandas raises ValueError when
  the two lengths differ. The code calls it on arrays whose length is a multiple of 24.
\<close>

definition pd_Series :: "real list \<Rightarrow> 't list \<Rightarrow> error + 't series" where
  "pd_Series vals index =
     (if length vals \<noteq> length index then Inl ValueError else Inr (zip index vals))"

text \<open>
  \<open>consumption.loc[time]\<close>: a missing label raises KeyError. A label that occurs more than
  once yields a Series instead of a number, and the \<open>max(pv_gen - demand, 0)\<close> of the next
  line then raises ValueError (the truth value of a Series is ambiguous).
\<close>

definition loc :: "'t series \<Rightarrow> 't \<Rightarrow> error + real" where
  "loc s time =
     (case filter (\<lambda>(t, v). t = time) s of
        [] \<Rightarrow> Inl KeyError
      | [(t, v)] \<Rightarrow> Inr v
      | _ \<Rightarrow> Inl ValueError)"

text \<open>
  \<open>dict(pairs)\<close>: a key seen again keeps its place and takes the new value, a new key goes
  to the end.
\<close>

definition py_dict :: "('k \<times> 'v) list \<Rightarrow> ('k \<times> 'v) list" where
  "py_dict pairs = foldl (\<lambda>d (k, v). AList.update k v d) [] pairs"

text \<open>
  The division of a number by a numpy scalar, which is what the sum of a column of numbers
  is: a zero divisor raises nothing, the result is \<open>nan\<close> for \<open>0 / 0\<close> and an infinity
  otherwise.
\<close>

definition np_divide :: "real \<Rightarrow> real \<Rightarrow> quotient" where
  "np_divide a b =
     (if b = 0 then (if a = 0 then NaN else if 0 < a then PosInf else NegInf)
      else Finite (a / b))"

text \<open>
  \<open>autokonsumed / consumption.sum()\<close>. The sum of a column with rows is a numpy scalar. A
  column without rows, as a file with nothing but the header line gives, has dtype object
  and its sum is the Python int 0; \<open>autokonsumed\<close> is then still the int 0 it started as
  (a first pass of the loop would have raised KeyError), and the division of the two ints
  raises ZeroDivisionError.
\<close>

definition divide_by_sum :: "real \<Rightarrow> 't series \<Rightarrow> error + quotient" where
  "divide_by_sum a consumption =
     (if consumption = [] then Inl ZeroDivisionError
      else Inr (np_divide a (sum_list (map snd consumption))))"

text \<open>\<open>q >= x\<close> for a quotient \<open>q\<close> and a finite \<open>x\<close>: every comparison with \<open>nan\<close> is false.\<close>

fun quotient_ge :: "quotient \<Rightarrow> real \<Rightarrow> bool" where
  "quotient_ge (Finite r) x = (x \<le> r)"
| "quotient_ge PosInf x = True"
| "quotient_ge NegInf x = False"
| "quotient_ge NaN x = False"

section \<open>simulate_pv_generation\<close>

definition degradation_rate :: real where
  "degradation_rate = 1 - 0.85 powr (1 / 25)"

definition degradation_multiplier :: "int \<Rightarrow> real" where
  "degradation_multiplier years = power_int (1 - degradation_rate) (years - 1)"

definition seasonal_factor :: "nat \<Rightarrow> real list" where
  "seasonal_factor len_profile =
     tile (map (\<lambda>x. clip (sin x) 0 1) (linspace 0 pi 24)) (len_profile div 24)"

definition simulate_pv_generation ::
  "rng \<Rightarrow> 't series \<Rightarrow> real \<Rightarrow> int \<Rightarrow> (error + 't series) \<times> rng" where
  "simulate_pv_generation rng0 consumption_profile pv_size_kw years =
     (let annual_generation_per_kw = (1000 :: real);
          system_losses = (0.15 :: real);
          base_generation = pv_size_kw * annual_generation_per_kw * (1 - system_losses);
          hourly_generation = base_generation / 8760;
          rng1 = np_random_seed 42 rng0
      in (pd_Series
            (map (\<lambda>s. hourly_generation * s * degradation_multiplier years)
               (seasonal_factor (length consumption_profile)))
            (map fst consumption_profile),
          rng1))"

section \<open>calculate_autoconsumption\<close>

record 't loop_state =
  storage_level :: real
  autokonsumed :: real
  storage_levels :: "('t \<times> real) list"

text \<open>
  The body of the loop up to the two accumulations: the new storage level and the
  \<open>direct_use\<close> of the step.
\<close>

definition step_body :: "real \<Rightarrow> real \<Rightarrow> real \<Rightarrow> real \<Rightarrow> real \<Rightarrow> real \<times> real" where
  "step_body adjusted_capacity storage_power_kw level pv_gen demand =
     (let excess = max (pv_gen - demand) 0;
          direct_use = min pv_gen demand
      in if excess > 0 then
           (let charge = min (adjusted_capacity - level) (min storage_power_kw excess)
            in (level + charge, direct_use))
         else
           (let needed = demand - direct_use;
                discharge = min level (min storage_power_kw needed)
            in (level - discharge, direct_use + discharge)))"

definition dispatch_step ::
  "real \<Rightarrow> real \<Rightarrow> 't \<Rightarrow> real \<Rightarrow> real \<Rightarrow> 't loop_state \<Rightarrow> 't loop_state" where
  "dispatch_step adjusted_capacity storage_power_kw time pv_gen demand st =
     (case step_body adjusted_capacity storage_power_kw (storage_level st) pv_gen demand of
        (level, direct_use) \<Rightarrow>
          \<lparr>storage_level = level,
           autokonsumed = autokonsumed st + direct_use,
           storage_levels = storage_levels st @ [(time, level)]\<rparr>)"

fun dispatch_loop ::
  "'t series \<Rightarrow> real \<Rightarrow> real \<Rightarrow> 't series \<Rightarrow> 't loop_state \<Rightarrow> error + 't loop_state" where
  "dispatch_loop consumption adjusted_capacity storage_power_kw [] st = Inr st"
| "dispatch_loop consumption adjusted_capacity storage_power_kw ((time, pv_gen) # rest) st =
     (case loc consumption time of
        Inl e \<Rightarrow> Inl e
      | Inr demand \<Rightarrow>
          dispatch_loop consumption adjusted_capacity storage_power_kw rest
            (dispatch_step adjusted_capacity storage_power_kw time pv_gen demand st))"

definition init_state :: "'t loop_state" where
  "init_state = \<lparr>storage_level = 0, autokonsumed = 0, storage_levels = []\<rparr>"

definition calculate_autoconsumption ::
  "'t series \<Rightarrow> 't series \<Rightarrow> real \<Rightarrow> real \<Rightarrow> int \<Rightarrow> error + (quotient \<times> 't series)" where
  "calculate_autoconsumption consumption pv_generation storage_power_kw storage_capacity_kwh
       battery_cycles =
     (let battery_degradation = (0.2 :: real);
          adjusted_capacity = storage_capacity_kwh * (1 - battery_degradation)
      in case dispatch_loop consumption adjusted_capacity storage_power_kw pv_generation
                init_state of
           Inl e \<Rightarrow> Inl e
         | Inr st \<Rightarrow>
             (let storage_profile = py_dict (storage_levels st)
              in case divide_by_sum (autokonsumed st) consumption of
                   Inl e \<Rightarrow> Inl e
                 | Inr ratio \<Rightarrow> Inr (ratio, storage_profile)))"

section \<open>optimize_system\<close>

record 't sizing_result =
  pv_size_kw :: real
  storage_power_kw :: real
  storage_capacity_kwh :: real
  autoconsumption :: quotient
  pv_generation :: "'t series"
  storage_profile :: "'t series"

text \<open>
  The \<open>while True\<close> loop. It has no bound, so it is a partial function: \<open>None\<close> is the run
  that never leaves the loop. An exception of one of the two calls ends the run with that
  error.
\<close>

partial_function (option) optimize_loop ::
  "rng \<Rightarrow> 't series \<Rightarrow> real \<Rightarrow> real \<Rightarrow> real \<Rightarrow> real
     \<Rightarrow> ((error + 't sizing_result) \<times> rng) option" where
  "optimize_loop rng0 consumption_profile min_autoconsumption pv sp sc =
     (case simulate_pv_generation rng0 consumption_profile pv 1 of
        (Inl e, rng1) \<Rightarrow> Some (Inl e, rng1)
      | (Inr gen, rng1) \<Rightarrow>
          (case calculate_autoconsumption consumption_profile gen sp sc 4000 of
             Inl e \<Rightarrow> Some (Inl e, rng1)
           | Inr (autocons, levels) \<Rightarrow>
               if quotient_ge autocons min_autoconsumption then
                 Some (Inr \<lparr>pv_size_kw = pv, storage_power_kw = sp,
                            storage_capacity_kwh = sc, autoconsumption = autocons,
                            pv_generation = gen, storage_profile = levels\<rparr>,
                       rng1)
               else optimize_loop rng1 consumption_profile min_autoconsumption
                      (pv + 2) (sp + 1) (sc + 5)))"

definition optimize_system ::
  "rng \<Rightarrow> 't series \<Rightarrow> real \<Rightarrow> ((error + 't sizing_result) \<times> rng) option" where
  "optimize_system rng0 consumption_profile min_autoconsumption =
     optimize_loop rng0 consumption_profile min_autoconsumption 10 5 20"

text \<open>
  The walk of the loop: its \<open>k\<close>-th pass runs the two simulations at
  \<open>pv_size_kw = 10 + 2 * k\<close>, \<open>storage_power_kw = 5 + k\<close> and
  \<open>storage_capacity_kwh = 20 + 5 * k\<close>. \<open>attempt_ratio\<close> is the \<open>autocons\<close> of that pass
  and \<open>attempt_meets\<close> the test \<open>autocons >= min_autoconsumption\<close> that leaves the loop.
  Every pass after the first starts with the generator seeded by the pass before it.
\<close>

definition attempt_ratio :: "'t series \<Rightarrow> nat \<Rightarrow> error + quotient" where
  "attempt_ratio consumption_profile k =
     (case fst (simulate_pv_generation (Rng 42 0) consumption_profile (10 + 2 * real k) 1) of
        Inl e \<Rightarrow> Inl e
      | Inr gen \<Rightarrow>
          (case calculate_autoconsumption consumption_profile gen (5 + real k) (20 + 5 * real k) 4000 of
             Inl e \<Rightarrow> Inl e
           | Inr (autocons, levels) \<Rightarrow> Inr autocons))"

definition attempt_meets :: "'t series \<Rightarrow> real \<Rightarrow> nat \<Rightarrow> bool" where
  "attempt_meets consumption_profile min_autoconsumption k =
     (case attempt_ratio consumption_profile k of
        Inl e \<Rightarrow> False
      | Inr autocons \<Rightarrow> quotient_ge autocons min_autoconsumption)"

text \<open>
  The loop variables of \<open>calculate_autoconsumption\<close> after the first \<open>n\<close> passes of its
  loop over the generation series; \<open>init_state\<close> where one of these passes raises.
\<close>

definition prefix_state ::
  "'t series \<Rightarrow> real \<Rightarrow> real \<Rightarrow> 't series \<Rightarrow> nat \<Rightarrow> 't loop_state" where
  "prefix_state consumption adjusted_capacity power_kw generation n =
     (case dispatch_loop consumption adjusted_capacity power_kw (take n generation)
             init_state of
        Inl e \<Rightarrow> init_state
      | Inr st \<Rightarrow> st)"

section \<open>One step of the dispatch loop\<close>

lemma step_body_direct_le: "snd (step_body cap sp l pv d) \<le> d"
  by (auto simp: step_body_def Let_def)

lemma step_body_level:
  "0 \<le> sp \<Longrightarrow> 0 \<le> l \<Longrightarrow> l \<le> cap \<Longrightarrow>
   0 \<le> fst (step_body cap sp l pv d) \<and> fst (step_body cap sp l pv d) \<le> cap"
  by (auto simp: step_body_def Let_def)


lemma step_body_direct_nonneg:
  "0 \<le> sp \<Longrightarrow> 0 \<le> l \<Longrightarrow> 0 \<le> pv \<Longrightarrow> 0 \<le> d \<Longrightarrow> 0 \<le> snd (step_body cap sp l pv d)"
  by (auto simp: step_body_def Let_def)

lemma dispatch_step_sel:
  "storage_level (dispatch_step cap sp t pv d st) = fst (step_body cap sp (storage_level st) pv d)"
  "autokonsumed (dispatch_step cap sp t pv d st) = autokonsumed st + snd (step_body cap sp (storage_level st) pv d)"
  "storage_levels (dispatch_step cap sp t pv d st) = storage_levels st @ [(t, fst (step_body cap sp (storage_level st) pv d))]"
  by (simp_all add: dispatch_step_def split: prod.splits)

lemma step_body_no_generation:
  "0 \<le> sp \<Longrightarrow> 0 < d \<Longrightarrow> step_body cap sp 0 0 d = (0, 0)"
  by (simp add: step_body_def Let_def)

section \<open>The dispatch loop\<close>

lemma filter_key_distinct:
  "distinct (map fst s) \<Longrightarrow> (t, d) \<in> set s \<Longrightarrow> filter (\<lambda>(t', v). t' = t) s = [(t, d)]"
proof (induction s)
  case Nil
  then show ?case by simp
next
  case (Cons x s)
  obtain t' v where x: "x = (t', v)" by (cases x)
  show ?case
  proof (cases "t' = t")
    case True
    with Cons.prems x have "t \<notin> fst ` set s" by simp
    then have none: "filter (\<lambda>(t', v). t' = t) s = []"
      by (auto simp: filter_empty_conv image_iff)
    from Cons.prems x True \<open>t \<notin> fst ` set s\<close> have "v = d"
      by (auto simp: image_iff)
    with x True none show ?thesis by simp
  next
    case False
    with Cons x show ?thesis by auto
  qed
qed

lemma loc_distinct: "distinct (map fst s) \<Longrightarrow> (t, d) \<in> set s \<Longrightarrow> loc s t = Inr d"
  by (simp add: loc_def filter_key_distinct)

lemma loc_in_set:
  assumes "loc s t = Inr d"
  shows "(t, d) \<in> set s"
proof -
  from assms obtain t' where f: "filter (\<lambda>(t', v). t' = t) s = [(t', d)]"
    by (auto simp: loc_def split: list.splits)
  then have "(t', d) \<in> set (filter (\<lambda>(t', v). t' = t) s)" by simp
  then show ?thesis by auto
qed

lemma demands_same_index:
  assumes "map fst g = map fst c" and "distinct (map fst c)"
  shows "list_all2 (\<lambda>x d. loc c (fst x) = Inr d) g (map snd c)"
proof -
  have len: "length g = length c" using assms(1) by (metis length_map)
  have "loc c (fst (g ! i)) = Inr (snd (c ! i))" if "i < length g" for i
  proof -
    from that len have "fst (g ! i) = fst (c ! i)"
      using assms(1) by (metis nth_map)
    moreover from that len have "(fst (c ! i), snd (c ! i)) \<in> set c" by simp
    ultimately show ?thesis using assms(2) by (simp add: loc_distinct)
  qed
  with len show ?thesis by (simp add: list_all2_conv_all_nth)
qed

lemma dispatch_loop_runs:
  "list_all2 (\<lambda>x d. loc c (fst x) = Inr d) g ds \<Longrightarrow> \<exists>st'. dispatch_loop c cap sp g st = Inr st'"
proof (induction g ds arbitrary: st rule: list_all2_induct)
  case Nil
  then show ?case by simp
next
  case (Cons x g d ds)
  then show ?case by (cases x) simp
qed


lemma dispatch_loop_index:
  "dispatch_loop c cap sp g st = Inr st' \<Longrightarrow>
   map fst (storage_levels st') = map fst (storage_levels st) @ map fst g"
proof (induction g arbitrary: st)
  case Nil
  then show ?case by simp
next
  case (Cons x g)
  obtain t pv where x: "x = (t, pv)" by (cases x)
  from Cons.prems(1) x obtain d where d: "loc c t = Inr d"
    and run: "dispatch_loop c cap sp g (dispatch_step cap sp t pv d st) = Inr st'"
    by (auto split: sum.splits)
  from Cons.IH [OF run] x show ?case by (simp add: dispatch_step_sel)
qed

lemma dispatch_loop_auto_le:
  "list_all2 (\<lambda>x d. loc c (fst x) = Inr d) g ds \<Longrightarrow>
   dispatch_loop c cap sp g st = Inr st' \<Longrightarrow>
   autokonsumed st' \<le> autokonsumed st + sum_list ds"
proof (induction g ds arbitrary: st rule: list_all2_induct)
  case Nil
  then show ?case by simp
next
  case (Cons x g d ds)
  obtain t pv where x: "x = (t, pv)" by (cases x)
  from Cons.hyps(1) x have d: "loc c t = Inr d" by simp
  with Cons.prems x
  have run: "dispatch_loop c cap sp g (dispatch_step cap sp t pv d st) = Inr st'" by simp
  from Cons.IH [OF run] step_body_direct_le [of cap sp "storage_level st" pv d]
  show ?case by (simp add: dispatch_step_sel)
qed

lemma dispatch_loop_auto_ge:
  "dispatch_loop c cap sp g st = Inr st' \<Longrightarrow> 0 \<le> sp \<Longrightarrow>
   0 \<le> storage_level st \<Longrightarrow> storage_level st \<le> cap \<Longrightarrow>
   \<forall>(t, pv) \<in> set g. 0 \<le> pv \<Longrightarrow> \<forall>(t, d) \<in> set c. 0 \<le> d \<Longrightarrow>
   autokonsumed st \<le> autokonsumed st'"
proof (induction g arbitrary: st)
  case Nil
  then show ?case by simp
next
  case (Cons x g)
  obtain t pv where x: "x = (t, pv)" by (cases x)
  from Cons.prems(1) x obtain d where d: "loc c t = Inr d"
    and run: "dispatch_loop c cap sp g (dispatch_step cap sp t pv d st) = Inr st'"
    by (auto split: sum.splits)
  from loc_in_set [OF d] Cons.prems(6) have d0: "0 \<le> d" by auto
  from Cons.prems(5) x have pv0: "0 \<le> pv" by simp
  have lv: "0 \<le> fst (step_body cap sp (storage_level st) pv d) \<and>
            fst (step_body cap sp (storage_level st) pv d) \<le> cap"
    using Cons.prems by (intro step_body_level) auto
  have "autokonsumed (dispatch_step cap sp t pv d st) \<le> autokonsumed st'"
    by (rule Cons.IH [OF run]) (use Cons.prems lv in \<open>auto simp: dispatch_step_sel\<close>)
  moreover have "0 \<le> snd (step_body cap sp (storage_level st) pv d)"
    using Cons.prems(2,3) pv0 d0 by (rule step_body_direct_nonneg)
  ultimately show ?case by (simp add: dispatch_step_sel)
qed


lemma dispatch_loop_prefix:
  "dispatch_loop c cap sp g st = Inr st' \<Longrightarrow> \<exists>st''. dispatch_loop c cap sp (take n g) st = Inr st''"
proof (induction g arbitrary: st n)
  case Nil
  then show ?case by simp
next
  case (Cons x g)
  obtain t pv where x: "x = (t, pv)" by (cases x)
  from Cons.prems(1) x obtain d where d: "loc c t = Inr d"
    and run: "dispatch_loop c cap sp g (dispatch_step cap sp t pv d st) = Inr st'"
    by (auto split: sum.splits)
  show ?case
  proof (cases n)
    case 0
    then show ?thesis by simp
  next
    case (Suc m)
    with Cons.IH [OF run, of m] x d show ?thesis by simp
  qed
qed

lemma update_fresh: "k \<notin> fst ` set al \<Longrightarrow> AList.update k v al = al @ [(k, v)]"
  by (induction al) auto

lemma py_dict_acc_distinct:
  "distinct (map fst (acc @ xs)) \<Longrightarrow>
   foldl (\<lambda>d (k, v). AList.update k v d) acc xs = acc @ xs"
proof (induction xs arbitrary: acc)
  case Nil
  then show ?case by simp
next
  case (Cons x xs)
  obtain k v where x: "x = (k, v)" by (cases x)
  from Cons.prems x have fresh: "k \<notin> fst ` set acc" by auto
  from Cons.prems x have "distinct (map fst ((acc @ [(k, v)]) @ xs))" by simp
  from Cons.IH [OF this] fresh x show ?case by (simp add: update_fresh)
qed

lemma py_dict_distinct: "distinct (map fst xs) \<Longrightarrow> py_dict xs = xs"
  using py_dict_acc_distinct [of "[]" xs] by (simp add: py_dict_def)

lemma calculate_autoconsumption_run:
  assumes "dispatch_loop c (sc * (1 - 0.2)) sp g init_state = Inr st"
  shows "calculate_autoconsumption c g sp sc bc =
           (if c = [] then Inl ZeroDivisionError
            else Inr (np_divide (autokonsumed st) (sum_list (map snd c)),
                      py_dict (storage_levels st)))"
  using assms by (simp add: calculate_autoconsumption_def divide_by_sum_def)

lemma calculate_autoconsumption_Inr:
  assumes "dispatch_loop c (sc * (1 - 0.2)) sp g init_state = Inr st" and "c \<noteq> []"
  shows "calculate_autoconsumption c g sp sc bc =
           Inr (np_divide (autokonsumed st) (sum_list (map snd c)), py_dict (storage_levels st))"
  using assms by (simp add: calculate_autoconsumption_run)

lemma run_same_index:
  assumes "map fst g = map fst c" and "distinct (map fst c)"
  shows "\<exists>st. dispatch_loop c cap sp g init_state = Inr st \<and> py_dict (storage_levels st) = storage_levels st
     \<and> map fst (storage_levels st) = map fst g"
proof -
  from dispatch_loop_runs [OF demands_same_index [OF assms]]
  obtain st where st: "dispatch_loop c cap sp g init_state = Inr st" by blast
  from dispatch_loop_index [OF st] have idx: "map fst (storage_levels st) = map fst g"
    by (simp add: init_state_def)
  with assms have "distinct (map fst (storage_levels st))" by simp
  then have "py_dict (storage_levels st) = storage_levels st" by (rule py_dict_distinct)
  with st idx show ?thesis by blast
qed

lemma dispatch_loop_snoc:
  "dispatch_loop c cap sp (xs @ [(t, pv)]) st =
     (case dispatch_loop c cap sp xs st of
        Inl e \<Rightarrow> Inl e
      | Inr st1 \<Rightarrow>
          (case loc c t of Inl e \<Rightarrow> Inl e | Inr d \<Rightarrow> Inr (dispatch_step cap sp t pv d st1)))"
proof (induction xs arbitrary: st)
  case Nil
  then show ?case by (simp split: sum.splits)
next
  case (Cons x xs)
  obtain t' pv' where x: "x = (t', pv')" by (cases x)
  show ?case unfolding x by (simp add: Cons.IH split: sum.splits)
qed

lemma prefix_state_0: "prefix_state c cap sp g 0 = init_state"
  by (simp add: prefix_state_def)

lemma prefix_state_run:
  assumes "map fst g = map fst c" and "distinct (map fst c)"
  shows "dispatch_loop c cap sp (take n g) init_state = Inr (prefix_state c cap sp g n)"
proof -
  from run_same_index [OF assms, of cap sp] obtain st where
    "dispatch_loop c cap sp g init_state = Inr st" by blast
  from dispatch_loop_prefix [OF this, of n] show ?thesis
    by (auto simp: prefix_state_def)
qed

lemma prefix_state_Suc:
  assumes "map fst g = map fst c" and "distinct (map fst c)" and "n < length g"
  shows "prefix_state c cap sp g (Suc n) =
           dispatch_step cap sp (fst (g ! n)) (snd (g ! n)) (snd (c ! n)) (prefix_state c cap sp g n)"
proof -
  from assms(1) have len: "length g = length c" by (metis length_map)
  with assms(1,3) have "fst (g ! n) = fst (c ! n)" by (metis nth_map)
  moreover from assms(3) len have "(fst (c ! n), snd (c ! n)) \<in> set c" by simp
  ultimately have loc: "loc c (fst (g ! n)) = Inr (snd (c ! n))"
    using assms(2) by (simp add: loc_distinct)
  from assms(3) have "dispatch_loop c cap sp (take (Suc n) g) init_state =
      dispatch_loop c cap sp (take n g @ [(fst (g ! n), snd (g ! n))]) init_state"
    by (simp add: take_Suc_conv_app_nth)
  also have "\<dots> =
      Inr (dispatch_step cap sp (fst (g ! n)) (snd (g ! n)) (snd (c ! n)) (prefix_state c cap sp g n))"
    by (subst dispatch_loop_snoc) (simp add: prefix_state_run [OF assms(1,2)] loc)
  finally show ?thesis
    using prefix_state_run [OF assms(1,2), where n = "Suc n" and cap = cap and sp = sp] by simp
qed

lemma prefix_state_levels_upto:
  assumes "map fst g = map fst c" and "distinct (map fst c)"
  shows "n \<le> length g \<Longrightarrow>
     storage_levels (prefix_state c cap sp g n) =
       map (\<lambda>m. (fst (g ! m), storage_level (prefix_state c cap sp g (Suc m)))) [0..<n]"
proof (induction n)
  case 0
  then show ?case by (simp add: prefix_state_0 init_state_def)
next
  case (Suc n)
  then have n: "n < length g" by simp
  from Suc.IH n show ?case
    by (simp add: prefix_state_Suc [OF assms n] dispatch_step_sel)
qed

lemma prefix_state_levels:
  assumes "map fst g = map fst c" and "distinct (map fst c)"
  shows "storage_levels (prefix_state c cap sp g (length g)) =
       map (\<lambda>m. (fst (g ! m), storage_level (prefix_state c cap sp g (Suc m)))) [0..<length g]"
  by (rule prefix_state_levels_upto [OF assms]) simp

lemma prefix_state_autokonsumed_upto:
  assumes "map fst g = map fst c" and "distinct (map fst c)"
  shows "n \<le> length g \<Longrightarrow>
     autokonsumed (prefix_state c cap sp g n) =
       (\<Sum>m < n. snd (step_body cap sp (storage_level (prefix_state c cap sp g m))
                        (snd (g ! m)) (snd (c ! m))))"
proof (induction n)
  case 0
  then show ?case by (simp add: prefix_state_0 init_state_def)
next
  case (Suc n)
  then have n: "n < length g" by simp
  from Suc.IH n show ?case
    by (simp add: prefix_state_Suc [OF assms n] dispatch_step_sel)
qed

lemma prefix_state_autokonsumed:
  assumes "map fst g = map fst c" and "distinct (map fst c)"
  shows "autokonsumed (prefix_state c cap sp g (length g)) =
       (\<Sum>m < length g. snd (step_body cap sp (storage_level (prefix_state c cap sp g m))
                        (snd (g ! m)) (snd (c ! m))))"
  by (rule prefix_state_autokonsumed_upto [OF assms]) simp

lemma first_hour_unmet:
  assumes idx: "map fst g = map fst c" and dist: "distinct (map fst c)"
    and ne: "c \<noteq> []" and g0: "snd (hd g) = 0" and d0: "0 < snd (hd c)"
    and sp: "0 \<le> sp" and total: "0 < sum_list (map snd c)"
  shows "\<exists>q lv. calculate_autoconsumption c g sp sc bc = Inr (q, lv) \<and> \<not> quotient_ge q 1"
proof -
  let ?cap = "sc * (1 - 0.2)"
  from ne obtain t0 d c' where c: "c = (t0, d) # c'" by (cases c) auto
  with idx g0 obtain g' where g: "g = (t0, 0) # g'" by (cases g) auto
  from c d0 have d: "0 < d" by simp
  from dist c have loc0: "loc c t0 = Inr d" by (intro loc_distinct) simp_all
  let ?st1 = "dispatch_step ?cap sp t0 0 d init_state"
  have st1: "autokonsumed ?st1 = 0"
    using step_body_no_generation [OF sp d, of ?cap]
    by (simp add: dispatch_step_sel init_state_def)
  from demands_same_index [OF idx dist] c g
  have all2: "list_all2 (\<lambda>x d. loc c (fst x) = Inr d) g' (map snd c')" by simp
  from dispatch_loop_runs [OF all2] obtain st where
    st: "dispatch_loop c ?cap sp g' ?st1 = Inr st" by blast
  from dispatch_loop_auto_le [OF all2 st] st1
  have le: "autokonsumed st \<le> sum_list (map snd c')" by simp
  from st loc0 g have run: "dispatch_loop c ?cap sp g init_state = Inr st" by simp
  from le c d have "autokonsumed st < sum_list (map snd c)" by simp
  with total have "\<not> quotient_ge (np_divide (autokonsumed st) (sum_list (map snd c))) 1"
    by (simp add: np_divide_def)
  with calculate_autoconsumption_Inr [OF run ne] show ?thesis by simp
qed

section \<open>The generation model\<close>

lemma length_tile: "length (tile xs reps) = reps * length xs"
  by (induction reps) (simp_all add: tile_def)

lemma tile_nth: "i < reps * length xs \<Longrightarrow> tile xs reps ! i = xs ! (i mod length xs)"
proof (induction reps arbitrary: i)
  case 0
  then show ?case by simp
next
  case (Suc reps)
  have unfold: "tile xs (Suc reps) = xs @ tile xs reps" by (simp add: tile_def)
  show ?case
  proof (cases "i < length xs")
    case True
    then show ?thesis by (simp add: unfold nth_append)
  next
    case False
    with Suc.prems have "i - length xs < reps * length xs" by simp
    from Suc.IH [OF this] False show ?thesis
      by (simp add: unfold nth_append le_mod_geq)
  qed
qed

lemma length_linspace [simp]: "length (linspace a b num) = num"
  by (simp add: linspace_def)

lemma linspace_nth:
  "k < num \<Longrightarrow> linspace a b num ! k = a + real k * ((b - a) / real (num - 1))"
  by (simp add: linspace_def)

lemma length_seasonal_factor: "length (seasonal_factor n) = 24 * (n div 24)"
  by (simp add: seasonal_factor_def length_tile length_linspace)

lemma seasonal_factor_nth:
  assumes "h < 24 * (n div 24)"
  shows "seasonal_factor n ! h = clip (sin (real (h mod 24) * pi / 23)) 0 1"
proof -
  let ?day = "map (\<lambda>x. clip (sin x) 0 1) (linspace 0 pi 24)"
  have len: "length ?day = 24" by (simp add: length_linspace)
  from assms have "h < (n div 24) * length ?day" by (simp add: length_linspace)
  then have "seasonal_factor n ! h = ?day ! (h mod 24)"
    unfolding seasonal_factor_def using tile_nth [of h "n div 24" ?day] by simp
  also have "\<dots> = clip (sin (linspace 0 pi 24 ! (h mod 24))) 0 1"
    by (simp add: length_linspace)
  also have "linspace 0 pi 24 ! (h mod 24) = real (h mod 24) * pi / 23"
    by (simp add: linspace_nth)
  finally show ?thesis .
qed

lemma seasonal_factor_nonneg: "x \<in> set (seasonal_factor n) \<Longrightarrow> 0 \<le> x"
  by (auto simp: seasonal_factor_def tile_def clip_def split: if_splits)

lemma simulate_fst:
  "fst (simulate_pv_generation r c pv years) =
     pd_Series (map (\<lambda>s. pv * 1000 * (1 - 0.15) / 8760 * s * degradation_multiplier years)
                  (seasonal_factor (length c)))
       (map fst c)"
  by (simp add: simulate_pv_generation_def Let_def mult_ac)

lemma simulate_snd: "snd (simulate_pv_generation r c pv years) = Rng 42 0"
  by (simp add: simulate_pv_generation_def Let_def np_random_seed_def)

lemma simulate_ok:
  assumes "length c mod 24 = 0"
  shows "fst (simulate_pv_generation r c pv years) =
     Inr (zip (map fst c)
            (map (\<lambda>s. pv * 1000 * (1 - 0.15) / 8760 * s * degradation_multiplier years)
               (seasonal_factor (length c))))"
proof -
  from assms have "24 * (length c div 24) = length c" by presburger
  then show ?thesis by (simp add: simulate_fst pd_Series_def length_seasonal_factor)
qed

lemma simulate_error:
  assumes "length c mod 24 \<noteq> 0"
  shows "fst (simulate_pv_generation r c pv years) = Inl ValueError"
proof -
  from assms have "24 * (length c div 24) \<noteq> length c" by presburger
  then show ?thesis by (simp add: simulate_fst pd_Series_def length_seasonal_factor)
qed

lemma degradation_base: "1 - degradation_rate = 0.85 powr (1 / 25)"
  by (simp add: degradation_rate_def)

lemma degradation_base_bounds: "0 < 1 - degradation_rate \<and> 1 - degradation_rate < 1"
proof -
  have "(0.85 :: real) powr (1 / 25) < 1 powr (1 / 25)"
    by (rule powr_less_mono2) simp_all
  then show ?thesis by (simp add: degradation_base)
qed

lemma degradation_multiplier_pos: "0 < degradation_multiplier years"
  using degradation_base_bounds by (simp add: degradation_multiplier_def)

lemma degradation_multiplier_decreasing:
  assumes "y1 < y2"
  shows "degradation_multiplier y2 < degradation_multiplier y1"
proof -
  from assms have "y1 - 1 < y2 - 1" by simp
  then show ?thesis
    unfolding degradation_multiplier_def
    using degradation_base_bounds by (intro power_int_strict_decreasing) simp_all
qed

lemma generation_ok:
  assumes "length c mod 24 = 0"
  shows "\<exists>g. fst (simulate_pv_generation r c pv years) = Inr g \<and> map fst g = map fst c"
proof -
  from assms have "24 * (length c div 24) = length c" by presburger
  then show ?thesis by (simp add: simulate_ok [OF assms] length_seasonal_factor)
qed

lemma generation_values:
  assumes "length c mod 24 = 0"
  shows "\<exists>g. fst (simulate_pv_generation r c pv years) = Inr g \<and>
     map fst g = map fst c \<and>
     (\<forall>h < length c. snd (g ! h) =
        (pv * 1000 * (1 - 0.15) / 8760) * clip (sin (real (h mod 24) * pi / 23)) 0 1 *
        (1 - degradation_rate) powi (years - 1))"
proof -
  let ?vals = "map (\<lambda>s. pv * 1000 * (1 - 0.15) / 8760 * s * degradation_multiplier years)
                 (seasonal_factor (length c))"
  let ?g = "zip (map fst c) ?vals"
  from assms have len: "24 * (length c div 24) = length c" by presburger
  have lv: "length ?vals = length c" by (simp add: length_seasonal_factor len)
  have "snd (?g ! h) = (pv * 1000 * (1 - 0.15) / 8760) * clip (sin (real (h mod 24) * pi / 23)) 0 1 *
        (1 - degradation_rate) powi (years - 1)" if "h < length c" for h
  proof -
    from that lv have "snd (?g ! h) = ?vals ! h" by simp
    also from that have "\<dots> = pv * 1000 * (1 - 0.15) / 8760 * seasonal_factor (length c) ! h *
        degradation_multiplier years"
      by (simp add: length_seasonal_factor len)
    finally show ?thesis
      using that by (simp add: seasonal_factor_nth len degradation_multiplier_def)
  qed
  moreover have "map fst ?g = map fst c" using lv by simp
  ultimately show ?thesis using simulate_ok [OF assms] by blast
qed

lemma generation_first_hour:
  assumes "length c mod 24 = 0" and "c \<noteq> []"
    and "fst (simulate_pv_generation r c pv years) = Inr g"
  shows "snd (hd g) = 0"
proof -
  from generation_values [OF assms(1), of r pv years] assms(3)
  have idx: "map fst g = map fst c"
    and val: "\<forall>h < length c. snd (g ! h) =
        (pv * 1000 * (1 - 0.15) / 8760) * clip (sin (real (h mod 24) * pi / 23)) 0 1 *
        (1 - degradation_rate) powi (years - 1)"
    by auto
  from assms(2) have pos: "0 < length c" by simp
  from idx assms(2) have "g \<noteq> []" by auto
  then have "hd g = g ! 0" by (simp add: hd_conv_nth)
  moreover from val pos have "snd (g ! 0) =
        (pv * 1000 * (1 - 0.15) / 8760) * clip (sin (real (0 mod 24) * pi / 23)) 0 1 *
        (1 - degradation_rate) powi (years - 1)"
    by blast
  ultimately show ?thesis by (simp add: clip_def)
qed

lemma generation_nonneg:
  assumes "0 \<le> pv" and "fst (simulate_pv_generation r c pv years) = Inr g"
  shows "\<forall>(t, v) \<in> set g. 0 \<le> v"
proof -
  let ?vals = "map (\<lambda>s. pv * 1000 * (1 - 0.15) / 8760 * s * degradation_multiplier years)
                 (seasonal_factor (length c))"
  from assms(2) have g: "g = zip (map fst c) ?vals"
    by (simp add: simulate_fst pd_Series_def split: if_splits)
  have "0 \<le> v" if "v \<in> set ?vals" for v
  proof -
    from that obtain s where s: "s \<in> set (seasonal_factor (length c))"
      and v: "v = pv * 1000 * (1 - 0.15) / 8760 * s * degradation_multiplier years" by auto
    from seasonal_factor_nonneg [OF s] assms(1) degradation_multiplier_pos [of years]
    show ?thesis unfolding v by simp
  qed
  then show ?thesis unfolding g by (auto dest: set_zip_rightD)
qed

section \<open>The optimizer loop\<close>

lemma attempt_ok:
  assumes "length c mod 24 = 0" and "distinct (map fst c)" and "c \<noteq> []"
  shows "\<exists>gen q lv. simulate_pv_generation r c pv 1 = (Inr gen, Rng 42 0) \<and>
           calculate_autoconsumption c gen sp sc 4000 = Inr (q, lv) \<and>
           fst (simulate_pv_generation (Rng 42 0) c pv 1) = Inr gen"
proof -
  from generation_ok [OF assms(1)] obtain gen where
    gen: "fst (simulate_pv_generation r c pv 1) = Inr gen" and idx: "map fst gen = map fst c"
    by blast
  from run_same_index [OF idx assms(2)] obtain st where
    "dispatch_loop c (sc * (1 - 0.2)) sp gen init_state = Inr st" by blast
  from calculate_autoconsumption_Inr [OF this assms(3)]
  have "\<exists>q lv. calculate_autoconsumption c gen sp sc 4000 = Inr (q, lv)" by blast
  moreover from gen have "simulate_pv_generation r c pv 1 = (Inr gen, Rng 42 0)"
    using simulate_snd [of r c pv 1] by (metis prod.collapse)
  moreover from gen have "fst (simulate_pv_generation (Rng 42 0) c pv 1) = Inr gen"
    by (simp add: simulate_fst)
  ultimately show ?thesis by blast
qed


lemma loop_meets:
  assumes "length c mod 24 = 0" and "distinct (map fst c)" and "c \<noteq> []"
    and "attempt_meets c t k"
  shows "\<exists>res. optimize_loop r c t (10 + 2 * real k) (5 + real k) (20 + 5 * real k) =
             Some (Inr res, Rng 42 0) \<and>
           pv_size_kw res = 10 + 2 * real k \<and> storage_power_kw res = 5 + real k \<and>
           storage_capacity_kwh res = 20 + 5 * real k \<and>
           attempt_ratio c k = Inr (autoconsumption res) \<and>
           quotient_ge (autoconsumption res) t"
proof -
  from attempt_ok [OF assms(1,2,3), of r "10 + 2 * real k" "5 + real k" "20 + 5 * real k"]
  obtain gen q lv where
    sim: "simulate_pv_generation r c (10 + 2 * real k) 1 = (Inr gen, Rng 42 0)"
    and calc: "calculate_autoconsumption c gen (5 + real k) (20 + 5 * real k) 4000 = Inr (q, lv)"
    and sim': "fst (simulate_pv_generation (Rng 42 0) c (10 + 2 * real k) 1) = Inr gen"
    by blast
  from sim' calc have ratio: "attempt_ratio c k = Inr q" by (simp add: attempt_ratio_def)
  with assms(4) have ge: "quotient_ge q t" by (simp add: attempt_meets_def)
  from sim calc ge ratio show ?thesis
    by (subst optimize_loop.simps) simp
qed

lemma loop_not_meets:
  assumes "length c mod 24 = 0" and "distinct (map fst c)" and "c \<noteq> []"
    and "\<not> attempt_meets c t k"
  shows "optimize_loop r c t (10 + 2 * real k) (5 + real k) (20 + 5 * real k) =
         optimize_loop (Rng 42 0) c t (10 + 2 * real (Suc k)) (5 + real (Suc k))
           (20 + 5 * real (Suc k))"
proof -
  from attempt_ok [OF assms(1,2,3), of r "10 + 2 * real k" "5 + real k" "20 + 5 * real k"]
  obtain gen q lv where
    sim: "simulate_pv_generation r c (10 + 2 * real k) 1 = (Inr gen, Rng 42 0)"
    and calc: "calculate_autoconsumption c gen (5 + real k) (20 + 5 * real k) 4000 = Inr (q, lv)"
    and sim': "fst (simulate_pv_generation (Rng 42 0) c (10 + 2 * real k) 1) = Inr gen"
    by blast
  from sim' calc have ratio: "attempt_ratio c k = Inr q" by (simp add: attempt_ratio_def)
  with assms(4) have ge: "\<not> quotient_ge q t" by (simp add: attempt_meets_def)
  have "optimize_loop r c t (10 + 2 * real k) (5 + real k) (20 + 5 * real k) =
        optimize_loop (Rng 42 0) c t (10 + 2 * real k + 2) (5 + real k + 1) (20 + 5 * real k + 5)"
    using sim calc ge by (subst optimize_loop.simps) simp
  also have "10 + 2 * real k + 2 = 10 + 2 * real (Suc k)" by simp
  also have "5 + real k + 1 = 5 + real (Suc k)" by simp
  also have "20 + 5 * real k + 5 = 20 + 5 * real (Suc k)" by simp
  finally show ?thesis .
qed

lemma loop_returns:
  assumes "length c mod 24 = 0" and "distinct (map fst c)" and "c \<noteq> []"
  shows "\<forall>j < n. \<not> attempt_meets c t (i + j) \<Longrightarrow> attempt_meets c t (i + n) \<Longrightarrow>
     \<exists>res. optimize_loop r c t (10 + 2 * real i) (5 + real i) (20 + 5 * real i) =
             Some (Inr res, Rng 42 0) \<and>
           pv_size_kw res = 10 + 2 * real (i + n) \<and> storage_power_kw res = 5 + real (i + n) \<and>
           storage_capacity_kwh res = 20 + 5 * real (i + n) \<and>
           attempt_ratio c (i + n) = Inr (autoconsumption res) \<and>
           quotient_ge (autoconsumption res) t"
proof (induction n arbitrary: i r)
  case 0
  then show ?case using loop_meets [OF assms, of t i r] by simp
next
  case (Suc n)
  from Suc.prems(1) have first: "\<not> attempt_meets c t i" by force
  have rest: "\<forall>j < n. \<not> attempt_meets c t (Suc i + j)"
  proof (intro allI impI)
    fix j assume "j < n"
    then have "Suc j < Suc n" by simp
    with Suc.prems(1) have "\<not> attempt_meets c t (i + Suc j)" by blast
    then show "\<not> attempt_meets c t (Suc i + j)" by simp
  qed
  from Suc.prems(2) have last: "attempt_meets c t (Suc i + n)" by simp
  have idx: "i + Suc n = Suc i + n" by simp
  from Suc.IH [OF rest last, of "Rng 42 0"]
  show ?case unfolding loop_not_meets [OF assms first, of r] idx .
qed

lemma loop_diverges:
  assumes "length c mod 24 = 0" and "distinct (map fst c)" and "c \<noteq> []"
    and none: "\<forall>k. \<not> attempt_meets c t k"
  shows "optimize_loop r c t (10 + 2 * real i) (5 + real i) (20 + 5 * real i) = None"
proof (rule ccontr)
  assume "optimize_loop r c t (10 + 2 * real i) (5 + real i) (20 + 5 * real i) \<noteq> None"
  then obtain y where
    y: "optimize_loop r c t (10 + 2 * real i) (5 + real i) (20 + 5 * real i) = Some y" by blast
  have inv: "\<not> (c' = c \<and> t' = t \<and>
               (\<exists>k. pv = 10 + 2 * real k \<and> sp = 5 + real k \<and> sc = 20 + 5 * real k))"
    if run: "optimize_loop r' c' t' pv sp sc = Some y'" for r' c' t' pv sp sc y'
  proof (rule optimize_loop.raw_induct
      [where P = "\<lambda>r' c' t' pv sp sc y'. \<not> (c' = c \<and> t' = t \<and>
               (\<exists>k. pv = 10 + 2 * real k \<and> sp = 5 + real k \<and> sc = 20 + 5 * real k))",
       OF _ run])
    fix loop :: "rng \<Rightarrow> 'a series \<Rightarrow> real \<Rightarrow> real \<Rightarrow> real \<Rightarrow> real
                   \<Rightarrow> ((error + 'a sizing_result) \<times> rng) option"
    fix r' c' t' pv sp sc y'
    assume IH: "\<And>r' c' t' pv sp sc y'. loop r' c' t' pv sp sc = Some y' \<Longrightarrow>
              \<not> (c' = c \<and> t' = t \<and>
               (\<exists>k. pv = 10 + 2 * real k \<and> sp = 5 + real k \<and> sc = 20 + 5 * real k))"
    assume body: "(case simulate_pv_generation r' c' pv 1 of
               (Inl e, rng1) \<Rightarrow> Some (Inl e, rng1)
             | (Inr gen, rng1) \<Rightarrow>
                 (case calculate_autoconsumption c' gen sp sc 4000 of
                    Inl e \<Rightarrow> Some (Inl e, rng1)
                  | Inr (autocons, levels) \<Rightarrow>
                      if quotient_ge autocons t' then
                        Some (Inr \<lparr>pv_size_kw = pv, storage_power_kw = sp,
                                   storage_capacity_kwh = sc,
                                   autoconsumption = autocons,
                                   pv_generation = gen, storage_profile = levels\<rparr>,
                              rng1)
                      else loop rng1 c' t' (pv + 2) (sp + 1) (sc + 5))) = Some y'"
    show "\<not> (c' = c \<and> t' = t \<and>
               (\<exists>k. pv = 10 + 2 * real k \<and> sp = 5 + real k \<and> sc = 20 + 5 * real k))"
    proof
      assume "c' = c \<and> t' = t \<and> (\<exists>k. pv = 10 + 2 * real k \<and> sp = 5 + real k \<and> sc = 20 + 5 * real k)"
      then obtain k where c': "c' = c" and t': "t' = t"
        and k: "pv = 10 + 2 * real k" "sp = 5 + real k" "sc = 20 + 5 * real k"
        by (elim conjE exE)
      from attempt_ok [OF assms(1,2,3), of r' "10 + 2 * real k" "5 + real k" "20 + 5 * real k"]
      obtain gen q lv where
        sim: "simulate_pv_generation r' c (10 + 2 * real k) 1 = (Inr gen, Rng 42 0)"
        and calc: "calculate_autoconsumption c gen (5 + real k) (20 + 5 * real k) 4000 = Inr (q, lv)"
        and sim': "fst (simulate_pv_generation (Rng 42 0) c (10 + 2 * real k) 1) = Inr gen"
        by blast
      from sim' calc have "attempt_ratio c k = Inr q" by (simp add: attempt_ratio_def)
      moreover from none have "\<not> attempt_meets c t k" by (rule spec)
      ultimately have ge: "\<not> quotient_ge q t" by (simp add: attempt_meets_def)
      have "(case simulate_pv_generation r' c (10 + 2 * real k) 1 of
               (Inl e, rng1) \<Rightarrow> Some (Inl e, rng1)
             | (Inr gen, rng1) \<Rightarrow>
                 (case calculate_autoconsumption c gen (5 + real k) (20 + 5 * real k) 4000 of
                    Inl e \<Rightarrow> Some (Inl e, rng1)
                  | Inr (autocons, levels) \<Rightarrow>
                      if quotient_ge autocons t then
                        Some (Inr \<lparr>pv_size_kw = 10 + 2 * real k, storage_power_kw = 5 + real k,
                                   storage_capacity_kwh = 20 + 5 * real k,
                                   autoconsumption = autocons,
                                   pv_generation = gen, storage_profile = levels\<rparr>,
                              rng1)
                      else loop rng1 c t (10 + 2 * real k + 2) (5 + real k + 1)
                             (20 + 5 * real k + 5))) = Some y'"
        using body unfolding c' t' k .
      then have next_run:
        "loop (Rng 42 0) c t (10 + 2 * real k + 2) (5 + real k + 1) (20 + 5 * real k + 5) = Some y'"
        unfolding sim prod.case sum.case calc using ge by simp
      have "\<exists>j. 10 + 2 * real k + 2 = 10 + 2 * real j \<and> 5 + real k + 1 = 5 + real j \<and>
                20 + 5 * real k + 5 = 20 + 5 * real j"
        by (rule exI [where x = "Suc k"]) simp
      with IH [OF next_run] show False by simp
    qed
  qed
  have "\<exists>k. 10 + 2 * real i = 10 + 2 * real k \<and> 5 + real i = 5 + real k \<and>
           20 + 5 * real i = 20 + 5 * real k"
    by (rule exI [where x = i]) simp
  with inv [OF y] show False by simp
qed

lemma simulate_empty: "simulate_pv_generation r [] pv years = (Inr [], Rng 42 0)"
  by (simp add: simulate_pv_generation_def seasonal_factor_def tile_def pd_Series_def
      np_random_seed_def)

lemma calculate_autoconsumption_empty:
  "calculate_autoconsumption [] [] sp sc bc = Inl ZeroDivisionError"
  by (simp add: calculate_autoconsumption_def divide_by_sum_def)

lemma loop_empty: "optimize_loop r [] t pv sp sc = Some (Inl ZeroDivisionError, Rng 42 0)"
  by (subst optimize_loop.simps) (simp add: simulate_empty calculate_autoconsumption_empty)

lemma never_meets_one:
  assumes len: "length c mod 24 = 0" and dist: "distinct (map fst c)"
    and ne: "c \<noteq> []" and d0: "0 < snd (hd c)" and total: "0 < sum_list (map snd c)"
  shows "\<not> attempt_meets c 1 k"
proof -
  from generation_ok [OF len, of "Rng 42 0" "10 + 2 * real k" 1] obtain g where
    g: "fst (simulate_pv_generation (Rng 42 0) c (10 + 2 * real k) 1) = Inr g"
    and idx: "map fst g = map fst c" by blast
  from generation_first_hour [OF len ne g] have g0: "snd (hd g) = 0" .
  have "0 \<le> 5 + real k" by simp
  from first_hour_unmet [OF idx dist ne g0 d0 this total, of "20 + 5 * real k" 4000]
  obtain q lv where
    "calculate_autoconsumption c g (5 + real k) (20 + 5 * real k) 4000 = Inr (q, lv)"
    and "\<not> quotient_ge q 1" by blast
  with g show ?thesis by (simp add: attempt_meets_def attempt_ratio_def)
qed

lemma meets_nonpositive:
  assumes len: "length c mod 24 = 0" and dist: "distinct (map fst c)"
    and nonneg: "\<forall>(t, d) \<in> set c. 0 \<le> d" and total: "0 < sum_list (map snd c)"
    and t: "t \<le> 0"
  shows "attempt_meets c t k"
proof -
  let ?sp = "5 + real k" and ?sc = "20 + 5 * real k"
  let ?cap = "?sc * (1 - 0.2)"
  from generation_ok [OF len, of "Rng 42 0" "10 + 2 * real k" 1] obtain g where
    g: "fst (simulate_pv_generation (Rng 42 0) c (10 + 2 * real k) 1) = Inr g"
    and idx: "map fst g = map fst c" by blast
  have "0 \<le> 10 + 2 * real k" by simp
  from generation_nonneg [OF this g] have gpos: "\<forall>(t, v) \<in> set g. 0 \<le> v" .
  from run_same_index [OF idx dist] obtain st where
    st: "dispatch_loop c ?cap ?sp g init_state = Inr st" by blast
  have sp0: "0 \<le> ?sp" by simp
  have "0 \<le> autokonsumed st"
    using dispatch_loop_auto_ge [OF st sp0 _ _ gpos nonneg] by (simp add: init_state_def)
  with total have "0 \<le> autokonsumed st / sum_list (map snd c)" by simp
  with total t have "quotient_ge (np_divide (autokonsumed st) (sum_list (map snd c))) t"
    by (simp add: np_divide_def)
  moreover from total have "c \<noteq> []" by auto
  ultimately show ?thesis using calculate_autoconsumption_Inr [OF st] g
    by (simp add: attempt_meets_def attempt_ratio_def)
qed

text \<open>A flat profile of one day, 1 kWh in each hour, with the hours 0 to 23 as timestamps.\<close>

lemma flat_profile_head: "0 < snd (hd (zip [0..<24] (replicate 24 (1::real))))"
proof -
  have "hd (zip [0..<24] (replicate 24 (1::real))) = (hd [0..<24], hd (replicate 24 (1::real)))"
    by (rule hd_zip) simp_all
  then show ?thesis by simp
qed

lemma flat_profile_nonneg: "\<forall>(t, d) \<in> set (zip [0..<24] (replicate 24 (1::real))). 0 \<le> d"
  by (auto dest: set_zip_rightD)

lemma flat_profile_facts:
  "length (zip [0..<24] (replicate 24 (1::real))) mod 24 = 0"
  "distinct (map fst (zip [0..<24] (replicate 24 (1::real))))"
  "zip [0..<24] (replicate 24 (1::real)) \<noteq> []"
  "0 < sum_list (map snd (zip [0..<24] (replicate 24 (1::real))))"
  by (simp_all add: sum_list_replicate)

section \<open>C1: the optimizer has no iteration cap\<close>

text \<open>
  C1, as amended. The code has no iteration cap and no UnreachableTarget failure. Take a
  profile whose length is a multiple of 24 and whose timestamps are unique. If it has no
  rows, the first pass of \<open>optimize_system\<close> ends with ZeroDivisionError. If it has rows,
  \<open>optimize_system\<close> never returns when no pass of the walk meets the target; and when pass
  \<open>k\<close> is the first to meet it, it returns the sizes \<open>10 + 2 * k\<close>, \<open>5 + k\<close> and
  \<open>20 + 5 * k\<close> with the ratio of that pass.
\<close>

theorem optimize_system_unbounded:
  assumes "length c mod 24 = 0" and "distinct (map fst c)"
  shows "(c = [] \<longrightarrow> optimize_system r c t = Some (Inl ZeroDivisionError, Rng 42 0)) \<and>
     (c \<noteq> [] \<longrightarrow>
        ((\<forall>k. \<not> attempt_meets c t k) \<longrightarrow> optimize_system r c t = None) \<and>
        (\<forall>k. attempt_meets c t k \<and> (\<forall>j < k. \<not> attempt_meets c t j) \<longrightarrow>
           (\<exists>res. optimize_system r c t = Some (Inr res, Rng 42 0) \<and>
              pv_size_kw res = 10 + 2 * real k \<and> storage_power_kw res = 5 + real k \<and>
              storage_capacity_kwh res = 20 + 5 * real k \<and>
              attempt_ratio c k = Inr (autoconsumption res) \<and>
              quotient_ge (autoconsumption res) t)))"
proof (intro conjI allI impI)
  assume "c = []"
  then show "optimize_system r c t = Some (Inl ZeroDivisionError, Rng 42 0)"
    by (simp add: optimize_system_def loop_empty)
next
  assume "c \<noteq> []" and "\<forall>k. \<not> attempt_meets c t k"
  from loop_diverges [OF assms this, of r 0] show "optimize_system r c t = None"
    by (simp add: optimize_system_def)
next
  fix k
  assume ne: "c \<noteq> []"
    and k: "attempt_meets c t k \<and> (\<forall>j < k. \<not> attempt_meets c t j)"
  then have "\<forall>j < k. \<not> attempt_meets c t (0 + j)" and "attempt_meets c t (0 + k)" by simp_all
  from loop_returns [OF assms ne this, of r]
  show "\<exists>res. optimize_system r c t = Some (Inr res, Rng 42 0) \<and>
           pv_size_kw res = 10 + 2 * real k \<and> storage_power_kw res = 5 + real k \<and>
           storage_capacity_kwh res = 20 + 5 * real k \<and>
           attempt_ratio c k = Inr (autoconsumption res) \<and>
           quotient_ge (autoconsumption res) t"
    by (simp add: optimize_system_def)
qed

text \<open>
  Witness for C1: on the flat profile the target 1 is never met and the run does not
  return; the target 0 is met by the first pass, which returns the initial sizes; and on
  the profile without rows the run ends with ZeroDivisionError.
\<close>

theorem optimize_system_unbounded_witness:
  "optimize_system (Rng 0 0) (zip [0..<24] (replicate 24 1)) 1 = None \<and>
   (\<exists>res. optimize_system (Rng 0 0) (zip [0..<24] (replicate 24 1)) 0 = Some (Inr res, Rng 42 0) \<and>
      pv_size_kw res = 10 \<and> storage_power_kw res = 5 \<and> storage_capacity_kwh res = 20) \<and>
   optimize_system (Rng 0 0) ([] :: (nat \<times> real) list) 1 = Some (Inl ZeroDivisionError, Rng 42 0)"
proof -
  let ?c = "zip [0..<24] (replicate 24 (1::real))"
  have ne: "?c \<noteq> []" by (rule flat_profile_facts(3))
  have none: "\<forall>k. \<not> attempt_meets ?c 1 k"
    by (intro allI never_meets_one flat_profile_facts flat_profile_head)
  have first: "attempt_meets ?c 0 0 \<and> (\<forall>j < 0. \<not> attempt_meets ?c 0 j)"
    using meets_nonpositive [OF flat_profile_facts(1,2) flat_profile_nonneg flat_profile_facts(4), of 0 0]
    by simp
  from optimize_system_unbounded [OF flat_profile_facts(1,2), where r = "Rng 0 0" and t = 1] none ne
  have "optimize_system (Rng 0 0) ?c 1 = None" by blast
  moreover from optimize_system_unbounded [OF flat_profile_facts(1,2), where r = "Rng 0 0" and t = 0] first ne
  have "\<exists>res. optimize_system (Rng 0 0) ?c 0 = Some (Inr res, Rng 42 0) \<and>
      pv_size_kw res = 10 + 2 * real 0 \<and> storage_power_kw res = 5 + real 0 \<and>
      storage_capacity_kwh res = 20 + 5 * real 0 \<and>
           attempt_ratio ?c 0 = Inr (autoconsumption res) \<and>
           quotient_ge (autoconsumption res) 0" by blast
  moreover have "optimize_system (Rng 0 0) ([] :: (nat \<times> real) list) 1 =
      Some (Inl ZeroDivisionError, Rng 42 0)"
    using optimize_system_unbounded [where c = "[] :: (nat \<times> real) list" and r = "Rng 0 0" and t = 1] by simp
  ultimately show ?thesis by auto
qed

text \<open>
  C1 as stated fails: on the flat profile with the target ratio 1 the optimizer does not
  terminate. The first hour has no generation and an empty battery, so its demand is never
  covered, whatever the sizes.
\<close>

theorem optimize_system_counterexample:
  "optimize_system (Rng 0 0) (zip [0..<24] (replicate 24 1)) 1 = None"
proof -
  have "\<forall>k. \<not> attempt_meets (zip [0..<24] (replicate 24 (1::real))) 1 k"
    by (intro allI never_meets_one flat_profile_facts flat_profile_head)
  from loop_diverges [OF flat_profile_facts(1,2,3) this, of "Rng 0 0" 0]
  show ?thesis by (simp add: optimize_system_def)
qed

section \<open>C2: invariants of the dispatch simulator\<close>



section \<open>C3: zero total consumption\<close>

text \<open>
  C3, as amended. The code has no ZeroConsumption error. Take non-negative series that
  share the index of the profile, non-negative storage parameters and a total consumption
  of zero. When the profile has rows, \<open>calculate_autoconsumption\<close> returns normally and
  the ratio is \<open>nan\<close>; when it has none, the call ends with Python's ZeroDivisionError.
\<close>

theorem zero_consumption_nan:
  assumes "map fst g = map fst c" and "distinct (map fst c)"
    and "\<forall>(t, pv) \<in> set g. 0 \<le> pv" and "\<forall>(t, d) \<in> set c. 0 \<le> d"
    and "0 \<le> sp" and "0 \<le> sc"
    and "sum_list (map snd c) = 0"
  shows "\<exists>levels. calculate_autoconsumption c g sp sc bc =
           (if c = [] then Inl ZeroDivisionError else Inr (NaN, levels))"
proof -
  let ?cap = "sc * (1 - 0.2)"
  from run_same_index [OF assms(1,2)] obtain st where
    st: "dispatch_loop c ?cap sp g init_state = Inr st" by blast
  have cap0: "0 \<le> ?cap" using assms(6) by simp
  have hi: "autokonsumed st \<le> 0"
    using dispatch_loop_auto_le [OF demands_same_index [OF assms(1,2)] st] assms(7)
    by (simp add: init_state_def)
  have lo: "0 \<le> autokonsumed st"
    using dispatch_loop_auto_ge [OF st assms(5) _ _ assms(3,4)] cap0
    by (simp add: init_state_def)
  from hi lo have "autokonsumed st = 0" by simp
  then show ?thesis
    unfolding calculate_autoconsumption_run [OF st] using assms(7) by (simp add: np_divide_def)
qed

text \<open>
  Witness for C3: a profile of two hours without consumption.
\<close>

theorem zero_consumption_nan_witness:
  "\<exists>levels. calculate_autoconsumption [(0 :: nat, 0), (1, 0)] [(0, 3), (1, 0)] 5 20 4000 = Inr (NaN, levels)"
  using zero_consumption_nan [of "[(0 :: nat, 3), (1, 0)]" "[(0 :: nat, 0), (1, 0)]" 5 20 4000]
  by simp

text \<open>
  C3 as stated fails: on a profile of one hour without consumption the call returns, and
  the ratio is \<open>nan\<close>.
\<close>

theorem zero_consumption_counterexample:
  "calculate_autoconsumption [(0 :: nat, 0)] [(0, 0)] 5 20 4000 = Inr (NaN, [(0, 0)])"
  by (simp add: calculate_autoconsumption_def init_state_def loc_def dispatch_step_def
      step_body_def divide_by_sum_def np_divide_def py_dict_def)

section \<open>C4: profiles whose length is not a multiple of 24\<close>

text \<open>
  C4. On a profile of 25 hours the generation model does not return a series of length 25:
  the tiled factor has 24 values, and building the Series on the 25 timestamps raises
  ValueError. For lengths that are multiples of 24 the series has the length of the
  profile (\<open>generation_ok\<close>) and, for \<open>pv_size_kw \<ge> 0\<close>, no negative value
  (\<open>generation_nonneg\<close>).
\<close>

theorem generation_length_25:
  "fst (simulate_pv_generation (Rng 0 0) (zip [0..<25] (replicate 25 1)) 10 1) = Inl ValueError"
  by (rule simulate_error) simp

section \<open>C5: the values of the generation model\<close>

text \<open>
  C5. When the length of the profile is a multiple of 24, \<open>simulate_pv_generation\<close>
  returns a series with the index of the profile, and the value of hour \<open>h\<close> is
  \<open>(pv_size_kw * 1000 * (1 - 0.15) / 8760) * s (h mod 24) * (1 - degradation_rate) ^ (years - 1)\<close>
  where \<open>s k\<close> is the sine of \<open>k * pi / 23\<close> clipped to the interval from 0 to 1. This holds
  for every \<open>pv_size_kw\<close> and every \<open>years\<close>.
\<close>

theorem generation_formula:
  assumes "length c mod 24 = 0"
  shows "\<exists>g. fst (simulate_pv_generation r c pv years) = Inr g \<and>
     map fst g = map fst c \<and>
     (\<forall>h < length c. snd (g ! h) =
        (pv * 1000 * (1 - 0.15) / 8760) * clip (sin (real (h mod 24) * pi / 23)) 0 1 *
        (1 - degradation_rate) powi (years - 1))"
  using assms by (rule generation_values)

text \<open>
  Witness for C5: on the flat profile the series has the 24 timestamps and its first
  value is 0, the sine of 0.
\<close>

theorem generation_formula_witness:
  "\<exists>g. fst (simulate_pv_generation (Rng 0 0) (zip [0..<24] (replicate 24 1)) 10 1) = Inr g \<and>
     map fst g = [0..<24] \<and> snd (g ! 0) = 0"
proof -
  have "length (zip [0..<24] (replicate 24 (1::real))) mod 24 = 0" by simp
  from generation_formula [OF this, of "Rng 0 0" 10 1] obtain g where
    g: "fst (simulate_pv_generation (Rng 0 0) (zip [0..<24] (replicate 24 1)) 10 1) = Inr g"
    and idx: "map fst g = map fst (zip [0..<24] (replicate 24 (1::real)))"
    and val: "\<forall>h < length (zip [0..<24] (replicate 24 (1::real))). snd (g ! h) =
        (10 * 1000 * (1 - 0.15) / 8760) * clip (sin (real (h mod 24) * pi / 23)) 0 1 *
        (1 - degradation_rate) powi (1 - 1)"
    by blast
  from val have "snd (g ! 0) =
        (10 * 1000 * (1 - 0.15) / 8760) * clip (sin (real (0 mod 24) * pi / 23)) 0 1 *
        (1 - degradation_rate) powi (1 - 1)"
    by (rule allE [where x = 0]) simp
  then have "snd (g ! 0) = 0" by (simp add: clip_def)
  with g idx show ?thesis by simp
qed

section \<open>C6: no validation of the arguments\<close>

text \<open>
  C6, as amended. Neither function checks its arguments, and no InvalidParameter error
  exists. For every \<open>pv_size_kw\<close>, negative ones included, and every \<open>years\<close> above
  \<open>- 109184\<close> and up to \<open>2 ^ 1023\<close>, so also for \<open>years < 1\<close>, the generation model returns
  a series when the length of the profile is a multiple of 24. For every
  \<open>storage_power_kw\<close> and \<open>storage_capacity_kwh\<close>, negative ones included, the dispatch
  simulator returns a result when the generation series has the index of a profile with
  rows and unique timestamps. From \<open>years = - 109184\<close> downwards the power of line 24
  leaves the range of a double, and from \<open>2 ^ 1024\<close> upwards its exponent does; Python
  then raises OverflowError, which the reading of floats as real numbers does not show.
  The statement stops short of these values.
\<close>

theorem no_parameter_validation:
  "(length c1 mod 24 = 0 \<and> - 109184 < years \<and> years \<le> 2 ^ 1023 \<longrightarrow>
      (\<exists>gen. fst (simulate_pv_generation r c1 pv years) = Inr gen \<and> map fst gen = map fst c1)) \<and>
   (map fst g = map fst c \<and> distinct (map fst c) \<and> c \<noteq> [] \<longrightarrow>
      (\<exists>q levels. calculate_autoconsumption c g sp sc bc = Inr (q, levels)))"
proof (intro conjI impI)
  assume "length c1 mod 24 = 0 \<and> - 109184 < years \<and> years \<le> 2 ^ 1023"
  then have "length c1 mod 24 = 0" ..
  then show "\<exists>gen. fst (simulate_pv_generation r c1 pv years) = Inr gen \<and> map fst gen = map fst c1"
    by (rule generation_ok)
next
  assume valid: "map fst g = map fst c \<and> distinct (map fst c) \<and> c \<noteq> []"
  then have idx: "map fst g = map fst c" and dist: "distinct (map fst c)" and ne: "c \<noteq> []"
    by simp_all
  from run_same_index [OF idx dist] obtain st where
    "dispatch_loop c (sc * (1 - 0.2)) sp g init_state = Inr st" by blast
  from calculate_autoconsumption_Inr [OF this ne]
  show "\<exists>q levels. calculate_autoconsumption c g sp sc bc = Inr (q, levels)" by blast
qed

text \<open>
  Witness for C6: the generation model returns on the flat profile with
  \<open>pv_size_kw = - 1\<close> and \<open>years = 0\<close>, and the dispatch simulator returns on a profile of
  one hour with \<open>storage_power_kw = - 1\<close> and \<open>storage_capacity_kwh = - 1\<close>.
\<close>

theorem no_parameter_validation_witness:
  "(\<exists>gen. fst (simulate_pv_generation (Rng 0 0) (zip [0..<24] (replicate 24 1)) (- 1) 0) = Inr gen \<and>
      map fst gen = [0..<24]) \<and>
   (\<exists>q levels. calculate_autoconsumption [(0 :: nat, 1)] [(0, 0)] (- 1) (- 1) 4000 = Inr (q, levels))"
  using no_parameter_validation [where ?c1.0 = "zip [0..<24] (replicate 24 (1::real))"
      and years = 0 and r = "Rng 0 0" and pv = "- 1"
      and c = "[(0 :: nat, 1)]" and g = "[(0 :: nat, 0)]" and sp = "- 1" and sc = "- 1" and bc = 4000]
  by simp

text \<open>
  C6 as stated fails: with \<open>storage_power_kw = - 1\<close> and \<open>storage_capacity_kwh = - 1\<close> the
  dispatch simulator computes a result, the ratio \<open>- 1\<close> and a storage level of 1 kWh.
\<close>

theorem negative_power_counterexample:
  "calculate_autoconsumption [(0 :: nat, 1)] [(0, 0)] (- 1) (- 1) 4000 = Inr (Finite (- 1), [(0, 1)])"
  by (simp add: calculate_autoconsumption_def init_state_def loc_def dispatch_step_def
      step_body_def divide_by_sum_def np_divide_def py_dict_def)

section \<open>C7: the degradation multiplier\<close>

text \<open>
  C7. The degradation multiplier is 1 for \<open>years = 1\<close>, and it is strictly decreasing in
  \<open>years\<close>.
\<close>

theorem degradation_multiplier_props:
  "degradation_multiplier 1 = 1 \<and>
   (\<forall>y1 y2. y1 < y2 \<longrightarrow> degradation_multiplier y2 < degradation_multiplier y1)"
proof (intro conjI allI impI)
  show "degradation_multiplier 1 = 1" by (simp add: degradation_multiplier_def)
next
  fix y1 y2 :: int
  assume "y1 < y2"
  then show "degradation_multiplier y2 < degradation_multiplier y1"
    by (rule degradation_multiplier_decreasing)
qed

text \<open>
  Witness for C7: the multiplier of the second year is below that of the first.
\<close>

theorem degradation_multiplier_props_witness:
  "(1 :: int) < 2 \<and> degradation_multiplier 2 < degradation_multiplier 1"
proof -
  have "(1 :: int) < 2" by simp
  with degradation_multiplier_props show ?thesis by blast
qed

section \<open>C9: the unused argument battery_cycles\<close>

text \<open>
  C9. The argument \<open>battery_cycles\<close> does not influence the result of
  \<open>calculate_autoconsumption\<close>. And on a generation series with the index of a profile
  with rows and unique timestamps, every step of the run uses the one adjusted capacity
  \<open>storage_capacity_kwh * (1 - 0.2)\<close>: the level returned for hour \<open>n\<close> is the one that the
  body of the loop makes at this capacity from the level of the hour before (from 0 in
  the first hour), the generation and the demand of hour \<open>n\<close>; and the ratio is the sum
  of the \<open>direct_use\<close> of these steps divided by the total consumption.
\<close>

theorem battery_cycles_unused:
  "calculate_autoconsumption c g sp sc bc = calculate_autoconsumption c g sp sc bc' \<and>
   (map fst g = map fst c \<and> distinct (map fst c) \<and> c \<noteq> [] \<longrightarrow>
      (\<exists>q levels. calculate_autoconsumption c g sp sc bc = Inr (q, levels) \<and>
         length levels = length g \<and>
         (\<forall>n < length g. levels ! n =
            (fst (g ! n),
             fst (step_body (sc * (1 - 0.2)) sp (if n = 0 then 0 else snd (levels ! (n - 1)))
                    (snd (g ! n)) (snd (c ! n))))) \<and>
         q = np_divide
               (\<Sum>n < length g.
                  snd (step_body (sc * (1 - 0.2)) sp (if n = 0 then 0 else snd (levels ! (n - 1)))
                         (snd (g ! n)) (snd (c ! n))))
               (sum_list (map snd c))))"
proof (intro conjI impI)
  show "calculate_autoconsumption c g sp sc bc = calculate_autoconsumption c g sp sc bc'"
    by (simp add: calculate_autoconsumption_def)
next
  assume valid: "map fst g = map fst c \<and> distinct (map fst c) \<and> c \<noteq> []"
  then have idx: "map fst g = map fst c" and dist: "distinct (map fst c)" and ne: "c \<noteq> []"
    by simp_all
  let ?cap = "sc * (1 - 0.2)"
  let ?S = "prefix_state c ?cap sp g"
  let ?levels = "storage_levels (?S (length g))"
  have run: "dispatch_loop c ?cap sp g init_state = Inr (?S (length g))"
    using prefix_state_run [OF idx dist, where n = "length g" and cap = ?cap and sp = sp] by simp
  from dispatch_loop_index [OF run] idx dist
  have "distinct (map fst ?levels)" by (simp add: init_state_def)
  then have dict: "py_dict ?levels = ?levels" by (rule py_dict_distinct)
  have call: "calculate_autoconsumption c g sp sc bc =
      Inr (np_divide (autokonsumed (?S (length g))) (sum_list (map snd c)), ?levels)"
    using calculate_autoconsumption_Inr [OF run ne] dict by simp
  have len: "length ?levels = length g"
    by (simp add: prefix_state_levels [OF idx dist])
  have nth: "?levels ! n = (fst (g ! n), storage_level (?S (Suc n)))" if "n < length g" for n
    using that by (simp add: prefix_state_levels [OF idx dist])
  have prev: "storage_level (?S n) = (if n = 0 then 0 else snd (?levels ! (n - 1)))"
    if "n < length g" for n
  proof (cases n)
    case 0
    then show ?thesis by (simp add: prefix_state_0 init_state_def)
  next
    case (Suc m)
    with that have "m < length g" by simp
    from nth [OF this] Suc show ?thesis by simp
  qed
  have level: "?levels ! n =
      (fst (g ! n),
       fst (step_body ?cap sp (if n = 0 then 0 else snd (?levels ! (n - 1)))
              (snd (g ! n)) (snd (c ! n))))" if "n < length g" for n
    using nth [OF that] prefix_state_Suc [OF idx dist that, where cap = ?cap and sp = sp]
      prev [OF that]
    by (simp add: dispatch_step_sel)
  have "autokonsumed (?S (length g)) =
      (\<Sum>n < length g. snd (step_body ?cap sp (storage_level (?S n)) (snd (g ! n)) (snd (c ! n))))"
    by (simp add: prefix_state_autokonsumed [OF idx dist])
  also have "\<dots> =
      (\<Sum>n < length g. snd (step_body ?cap sp (if n = 0 then 0 else snd (?levels ! (n - 1)))
                            (snd (g ! n)) (snd (c ! n))))"
  proof (rule sum.cong)
    fix n assume "n \<in> {..<length g}"
    then have "n < length g" by simp
    from prev [OF this]
    show "snd (step_body ?cap sp (storage_level (?S n)) (snd (g ! n)) (snd (c ! n))) =
          snd (step_body ?cap sp (if n = 0 then 0 else snd (?levels ! (n - 1)))
                 (snd (g ! n)) (snd (c ! n)))"
      by (simp only:)
  qed (rule refl)
  finally have auto: "autokonsumed (?S (length g)) =
      (\<Sum>n < length g. snd (step_body ?cap sp (if n = 0 then 0 else snd (?levels ! (n - 1)))
                            (snd (g ! n)) (snd (c ! n))))" .
  have level_all: "\<forall>n < length g. ?levels ! n =
      (fst (g ! n),
       fst (step_body ?cap sp (if n = 0 then 0 else snd (?levels ! (n - 1)))
              (snd (g ! n)) (snd (c ! n))))"
    using level by blast
  have ratio: "np_divide (autokonsumed (?S (length g))) (sum_list (map snd c)) =
      np_divide
        (\<Sum>n < length g. snd (step_body ?cap sp (if n = 0 then 0 else snd (?levels ! (n - 1)))
                              (snd (g ! n)) (snd (c ! n))))
        (sum_list (map snd c))"
    unfolding auto ..
  from call len level_all ratio
  show "\<exists>q levels. calculate_autoconsumption c g sp sc bc = Inr (q, levels) \<and>
         length levels = length g \<and>
         (\<forall>n < length g. levels ! n =
            (fst (g ! n),
             fst (step_body ?cap sp (if n = 0 then 0 else snd (levels ! (n - 1)))
                    (snd (g ! n)) (snd (c ! n))))) \<and>
         q = np_divide
               (\<Sum>n < length g.
                  snd (step_body ?cap sp (if n = 0 then 0 else snd (levels ! (n - 1)))
                         (snd (g ! n)) (snd (c ! n))))
               (sum_list (map snd c))"
    by blast
qed

text \<open>
  Witness for C9: in the two-hour run the first hour charges 1 kWh at the capacity of
  16 kWh and the second hour takes it back.
\<close>

theorem battery_cycles_unused_witness:
  "\<exists>q levels.
     calculate_autoconsumption [(0 :: nat, 2), (1, 2)] [(0, 3), (1, 0)] 5 20 4000 = Inr (q, levels) \<and>
     length levels = 2 \<and>
     levels ! 0 = (0, fst (step_body 16 5 0 3 2)) \<and>
     levels ! 1 = (1, fst (step_body 16 5 (snd (levels ! 0)) 0 2))"
proof -
  have "map fst [(0 :: nat, 3 :: real), (1, 0)] = map fst [(0 :: nat, 2 :: real), (1, 2)] \<and>
        distinct (map fst [(0 :: nat, 2 :: real), (1, 2)]) \<and> [(0 :: nat, 2 :: real), (1, 2)] \<noteq> []"
    by simp
  with battery_cycles_unused [where c = "[(0 :: nat, 2), (1, 2)]" and g = "[(0 :: nat, 3), (1, 0)]"
      and sp = 5 and sc = 20 and bc = 4000 and bc' = 4000]
  obtain q levels where
    call: "calculate_autoconsumption [(0 :: nat, 2), (1, 2)] [(0, 3), (1, 0)] 5 20 4000 = Inr (q, levels)"
    and len: "length levels = length [(0 :: nat, 3 :: real), (1, 0)]"
    and step: "\<forall>n < length [(0 :: nat, 3 :: real), (1, 0)]. levels ! n =
            (fst ([(0 :: nat, 3 :: real), (1, 0)] ! n),
             fst (step_body (20 * (1 - 0.2)) 5 (if n = 0 then 0 else snd (levels ! (n - 1)))
                    (snd ([(0 :: nat, 3 :: real), (1, 0)] ! n))
                    (snd ([(0 :: nat, 2 :: real), (1, 2)] ! n))))"
    by blast
  from step have "levels ! 0 = (0, fst (step_body 16 5 0 3 2))"
    by (rule allE [where x = 0]) simp
  moreover from step have "levels ! 1 = (1, fst (step_body 16 5 (snd (levels ! 0)) 0 2))"
    by (rule allE [where x = 1]) simp
  ultimately show ?thesis using call len by simp
qed

section \<open>C10: energy conservation\<close>



end
